theory Spec2Isabelle
  imports Main "HOL-Library.Sublist" "HOL-Library.AList" "HOL-Library.Multiset"
begin

section \<open>JavaScript strings\<close>

text \<open>
  A JavaScript string is a sequence of UTF-16 code units. The model is \<^typ>\<open>string\<close>:
  one \<^typ>\<open>char\<close> is one code unit in the range 0..255 (the Latin-1 block), so
  \<open>length\<close> is the \<open>.length\<close> of the script. Strings with code units above 255 are
  outside the model.
\<close>

definition code_unit :: "char \<Rightarrow> nat" where
  "code_unit c = of_char c"

text \<open>
  \<open>String.prototype.toLowerCase\<close> on the Latin-1 block: \<open>A\<close>..\<open>Z\<close> and
  the accented capitals 0xC0..0xDE (without the multiplication sign 0xD7) move up by 32;
  every other code unit stays.
\<close>

definition lower_char :: "char \<Rightarrow> char" where
  "lower_char c =
     (let n = code_unit c in
      if (65 \<le> n \<and> n \<le> 90) \<or> (192 \<le> n \<and> n \<le> 222 \<and> n \<noteq> 215)
      then char_of (n + 32) else c)"

definition toLowerCase :: "string \<Rightarrow> string" where
  "toLowerCase s = map lower_char s"

text \<open>\<open>s.startsWith(p)\<close>, \<open>s.endsWith(p)\<close> and \<open>s.includes(p)\<close> (named \<open>includes_str\<close> here).\<close>

definition startsWith :: "string \<Rightarrow> string \<Rightarrow> bool" where
  "startsWith s p = prefix p s"

definition endsWith :: "string \<Rightarrow> string \<Rightarrow> bool" where
  "endsWith s p = suffix p s"

fun includes_str :: "string \<Rightarrow> string \<Rightarrow> bool" where
  "includes_str [] p = (p = [])"
| "includes_str (c # cs) p = (prefix p (c # cs) \<or> includes_str cs p)"

text \<open>
  The characters that \<open>String.prototype.trim\<close> strips (and that \<open>\s\<close> matches in a
  regular expression), within the Latin-1 block: tab, line feed, vertical tab, form feed,
  carriage return, space and the no-break space.
\<close>

definition is_space :: "char \<Rightarrow> bool" where
  "is_space c = (code_unit c \<in> {9, 10, 11, 12, 13, 32, 160})"

definition trim :: "string \<Rightarrow> string" where
  "trim s = rev (dropWhile is_space (rev (dropWhile is_space s)))"

section \<open>Metadata extraction: key terms\<close>

definition terms :: "string list" where
  "terms =
    [''investment adviser'', ''registrar'', ''depository'', ''mutual fund'',
     ''portfolio'', ''compliance'', ''audit'', ''charter'', ''framework'',
     ''guidelines'', ''norms'', ''requirements'', ''risk management'',
     ''kyc'', ''aml'', ''disclosure'', ''governance'', ''intermediary'']"

text \<open>
  \<open>extractKeyTerms\<close>: the loop pushes each vocabulary entry, in the order of \<open>terms\<close>,
  when the lower-cased text includes it.
\<close>

fun collect_terms :: "string \<Rightarrow> string list \<Rightarrow> string list \<Rightarrow> string list" where
  "collect_terms textLower [] foundTerms = foundTerms"
| "collect_terms textLower (t # ts) foundTerms =
     collect_terms textLower ts
       (if includes_str textLower t then foundTerms @ [t] else foundTerms)"

definition extractKeyTerms :: "string \<Rightarrow> string list" where
  "extractKeyTerms text = collect_terms (toLowerCase text) terms []"

text \<open>
  What the specification calls a case-insensitive occurrence of a vocabulary entry, in
  its own terms: two code units are the same letter when they are equal or are the
  capital and the small form of one of the letters \<open>A\<close>..\<open>Z\<close>, which lie 32 apart;
  an entry occurs in a text when some contiguous piece of the text agrees with it letter
  by letter.
\<close>

definition capital_of :: "char \<Rightarrow> char \<Rightarrow> bool" where
  "capital_of u l =
     (65 \<le> code_unit u \<and> code_unit u \<le> 90 \<and> code_unit l = code_unit u + 32)"

definition same_letter :: "char \<Rightarrow> char \<Rightarrow> bool" where
  "same_letter a b = (a = b \<or> capital_of a b \<or> capital_of b a)"

definition occurs_ci :: "string \<Rightarrow> string \<Rightarrow> bool" where
  "occurs_ci entry text = (\<exists>u w v. text = u @ w @ v \<and> list_all2 same_letter w entry)"

text \<open>The code units of the vocabulary: the small letters \<open>a\<close>..\<open>z\<close> and the space.\<close>

definition small_or_space :: "char \<Rightarrow> bool" where
  "small_or_space c = ((97 \<le> code_unit c \<and> code_unit c \<le> 122) \<or> code_unit c = 32)"

section \<open>JavaScript values\<close>

text \<open>
  The values that \<open>JSON.parse\<close> produces, with \<open>undefined\<close> added for absent
  properties. The number type \<open>'n\<close> is a parameter: the script observes of a number only
  whether it is truthy and how it prints, and both are supplied as \<open>number_ops\<close>.
  An object is the list of its own properties in insertion order, looked up with
  \<^const>\<open>map_of\<close>.
\<close>

datatype js_error = TypeError | SyntaxError | InferenceFailure

datatype 'n jsval =
    JUndefined
  | JNull
  | JBool bool
  | JNum 'n
  | JStr string
  | JArr "'n jsval list"
  | JObj "(string \<times> 'n jsval) list"

type_synonym 'n jsobj = "(string \<times> 'n jsval) list"

record 'n number_ops =
  number_truthy :: "'n \<Rightarrow> bool"
  number_string :: "'n \<Rightarrow> string"

definition digit_char :: "nat \<Rightarrow> char" where
  "digit_char d = char_of (48 + d)"

fun show_nat :: "nat \<Rightarrow> string" where
  "show_nat n = (if n < 10 then [digit_char n] else show_nat (n div 10) @ [digit_char (n mod 10)])"

declare show_nat.simps [simp del]

text \<open>
  The instance for the examples, meant for the safe integers only (magnitude below
  \<open>2^53\<close>): these are exact as JSON numbers and print in plain decimal; zero is falsy.
  Larger integers print differently in the language and are not covered by it.
\<close>

definition integer_ops :: "int number_ops" where
  "integer_ops =
     \<lparr>number_truthy = (\<lambda>i. i \<noteq> 0),
      number_string = (\<lambda>i. if i < 0 then CHR ''-'' # show_nat (nat (- i)) else show_nat (nat i))\<rparr>"

fun ToBoolean :: "'n number_ops \<Rightarrow> 'n jsval \<Rightarrow> bool" where
  "ToBoolean ops JUndefined = False"
| "ToBoolean ops JNull = False"
| "ToBoolean ops (JBool b) = b"
| "ToBoolean ops (JNum n) = number_truthy ops n"
| "ToBoolean ops (JStr s) = (s \<noteq> [])"
| "ToBoolean ops (JArr xs) = True"
| "ToBoolean ops (JObj kvs) = True"

text \<open>
  \<open>ToString\<close>, which is also \<open>ToPropertyKey\<close> for these values. An array prints as
  the join of its elements with commas, \<open>null\<close> and \<open>undefined\<close> elements printing
  empty. A plain object prints through \<open>Object.prototype.toString\<close>; when it has an own
  property \<open>toString\<close> (never callable in parsed JSON) the conversion finds no primitive
  and raises a TypeError.
\<close>

fun ToString :: "'n number_ops \<Rightarrow> 'n jsval \<Rightarrow> js_error + string"
  and join_elements :: "'n number_ops \<Rightarrow> 'n jsval list \<Rightarrow> js_error + string" where
  "ToString ops JUndefined = Inr ''undefined''"
| "ToString ops JNull = Inr ''null''"
| "ToString ops (JBool b) = Inr (if b then ''true'' else ''false'')"
| "ToString ops (JNum n) = Inr (number_string ops n)"
| "ToString ops (JStr s) = Inr s"
| "ToString ops (JArr xs) = join_elements ops xs"
| "ToString ops (JObj kvs) =
     (if ''toString'' \<in> fst ` set kvs then Inl TypeError else Inr ''[object Object]'')"
| "join_elements ops [] = Inr []"
| "join_elements ops (x # xs) =
     (case (if x = JUndefined \<or> x = JNull then Inr [] else ToString ops x) of
        Inl e \<Rightarrow> Inl e
      | Inr s \<Rightarrow>
          (if xs = [] then Inr s
           else case join_elements ops xs of
                  Inl e \<Rightarrow> Inl e
                | Inr r \<Rightarrow> Inr (s @ '','' @ r)))"

text \<open>
  \<open>v.name\<close> for a property name that no built-in prototype defines (the script reads
  \<open>matched_target\<close>, \<open>availability_status\<close>, \<open>confidence\<close>, \<open>exact_text\<close>):
  a TypeError on \<open>null\<close> and \<open>undefined\<close>, the own property of an object, and
  \<open>undefined\<close> otherwise.
\<close>

definition get_prop :: "'n jsval \<Rightarrow> string \<Rightarrow> js_error + 'n jsval" where
  "get_prop v name =
     (case v of
        JUndefined \<Rightarrow> Inl TypeError
      | JNull \<Rightarrow> Inl TypeError
      | JObj kvs \<Rightarrow> Inr (case map_of kvs name of Some x \<Rightarrow> x | None \<Rightarrow> JUndefined)
      | _ \<Rightarrow> Inr JUndefined)"

text \<open>
  The object literal \<open>{ ...v }\<close>: the own enumerable properties of \<open>v\<close>. An array and
  a string contribute their indices, the other primitives nothing.
\<close>

definition spread :: "'n jsval \<Rightarrow> 'n jsobj" where
  "spread v =
     (case v of
        JObj kvs \<Rightarrow> kvs
      | JArr xs \<Rightarrow> zip (map show_nat [0..<length xs]) xs
      | JStr s \<Rightarrow> zip (map show_nat [0..<length s]) (map (\<lambda>c. JStr [c]) s)
      | _ \<Rightarrow> [])"

text \<open>\<open>for (const ref of v)\<close>: arrays and strings are iterable, nothing else here is.\<close>

definition iterate :: "'n jsval \<Rightarrow> js_error + 'n jsval list" where
  "iterate v =
     (case v of
        JArr xs \<Rightarrow> Inr xs
      | JStr s \<Rightarrow> Inr (map (\<lambda>c. JStr [c]) s)
      | _ \<Rightarrow> Inl TypeError)"

section \<open>Regular expressions\<close>

text \<open>
  The fragment of ECMAScript regular expressions that the patterns of the script use,
  all with the flag \<open>i\<close> and no other flag. A quantifier applies to a single-character
  atom only, and there is at most one capture group, group 1.

  Under the flag \<open>i\<close> two code units match when they have the same canonical form,
  their upper case. In the Latin-1 block \<open>a\<close>..\<open>z\<close> and the accented small letters
  0xE0..0xFE (without the division sign 0xF7) move down by 32. The sharp s has no
  single-unit upper case and stays; the upper cases of 0xFF and 0xB5 lie outside the block
  and no other code unit of the block shares them, so they are modelled as staying too.
\<close>

definition canonicalize :: "char \<Rightarrow> char" where
  "canonicalize c =
     (let n = code_unit c in
      if (97 \<le> n \<and> n \<le> 122) \<or> (224 \<le> n \<and> n \<le> 254 \<and> n \<noteq> 247)
      then char_of (n - 32) else c)"

datatype atom =
    Lit char
  | Cls "(char \<times> char) list"
  | Dot

datatype regex =
    Empty
  | Atom atom
  | Rep bool atom nat "nat option"
  | Seq regex regex
  | Alt regex regex
  | Group regex
  | EndAnchor

text \<open>
  Whether an atom matches a code unit: a literal by canonical form; the dot everything
  but the line terminators; a class \<open>[...]\<close>, given as its ranges, when some member
  has the canonical form of the code unit. In this block a member has the canonical form
  of \<open>c\<close> exactly when it is \<open>c\<close>, the upper case of \<open>c\<close> or the lower case of
  \<open>c\<close>, which is how the class test is computed.
\<close>

definition in_range :: "char \<Rightarrow> char \<Rightarrow> char \<Rightarrow> bool" where
  "in_range lo hi c = (code_unit lo \<le> code_unit c \<and> code_unit c \<le> code_unit hi)"

fun atom_ok :: "atom \<Rightarrow> char \<Rightarrow> bool" where
  "atom_ok (Lit x) c = (canonicalize c = canonicalize x)"
| "atom_ok (Cls ranges) c =
     list_ex (\<lambda>(lo, hi).
        in_range lo hi c \<or> in_range lo hi (canonicalize c) \<or> in_range lo hi (lower_char c))
       ranges"
| "atom_ok Dot c = (code_unit c \<noteq> 10 \<and> code_unit c \<noteq> 13)"

text \<open>
  The rests of the input after zero, one, two, ... repetitions of an atom, up to the
  bound \<open>hi\<close>.
\<close>

fun rep_suffixes :: "atom \<Rightarrow> nat option \<Rightarrow> string \<Rightarrow> string list" where
  "rep_suffixes a hi [] = [[]]"
| "rep_suffixes a hi (c # cs) =
     (c # cs) #
       (if hi \<noteq> Some 0 \<and> atom_ok a c
        then rep_suffixes a (map_option (\<lambda>n. n - 1) hi) cs else [])"

text \<open>
  The backtracking matcher: \<open>rmatch r s cap\<close> lists, in the order in which backtracking
  tries them, the ways \<open>r\<close> can match a prefix of \<open>s\<close>, each as the rest of the input
  and the value of group 1 after it. A greedy quantifier tries the most repetitions
  first, a lazy one the fewest.
\<close>

fun rmatch :: "regex \<Rightarrow> string \<Rightarrow> string option \<Rightarrow> (string \<times> string option) list" where
  "rmatch Empty s cap = [(s, cap)]"
| "rmatch (Atom a) s cap =
     (case s of [] \<Rightarrow> [] | c # cs \<Rightarrow> if atom_ok a c then [(cs, cap)] else [])"
| "rmatch (Rep greedy a lo hi) s cap =
     map (\<lambda>rest. (rest, cap))
       (if greedy then rev (drop lo (rep_suffixes a hi s)) else drop lo (rep_suffixes a hi s))"
| "rmatch (Seq r1 r2) s cap =
     concat (map (\<lambda>(s1, cap1). rmatch r2 s1 cap1) (rmatch r1 s cap))"
| "rmatch (Alt r1 r2) s cap = rmatch r1 s cap @ rmatch r2 s cap"
| "rmatch (Group r) s cap =
     map (\<lambda>(s1, cap1). (s1, Some (take (length s - length s1) s))) (rmatch r s cap)"
| "rmatch EndAnchor s cap = (if s = [] then [([], cap)] else [])"

text \<open>
  The result of \<open>text.match(pattern)\<close> for a pattern without the flag \<open>g\<close>: the first
  start position with a match, and there the first way to match. \<open>whole\<close> is
  \<open>match[0]\<close>, \<open>group1\<close> is \<open>match[1]\<close> (\<open>None\<close> for \<open>undefined\<close>).
\<close>

record match_result =
  whole :: string
  group1 :: "string option"
  index :: nat

fun search :: "regex \<Rightarrow> nat \<Rightarrow> string \<Rightarrow> match_result option" where
  "search r i [] =
     (case rmatch r [] None of
        [] \<Rightarrow> None
      | (rest, cap) # others \<Rightarrow> Some \<lparr>whole = [], group1 = cap, index = i\<rparr>)"
| "search r i (c # cs) =
     (case rmatch r (c # cs) None of
        [] \<Rightarrow> search r (Suc i) cs
      | (rest, cap) # others \<Rightarrow>
          Some \<lparr>whole = take (length (c # cs) - length rest) (c # cs), group1 = cap, index = i\<rparr>)"

definition str_match :: "string \<Rightarrow> regex \<Rightarrow> match_result option" where
  "str_match text r = search r 0 text"

text \<open>Writing patterns: a literal string, and a sequence of parts.\<close>

definition lits :: "string \<Rightarrow> regex" where
  "lits s = foldr (\<lambda>c r. Seq (Atom (Lit c)) r) s Empty"

definition seqs :: "regex list \<Rightarrow> regex" where
  "seqs rs = foldr Seq rs Empty"

definition space_class :: "(char \<times> char) list" where
  "space_class = [(CHR 0x09, CHR 0x0D), (CHR '' '', CHR '' ''), (CHR 0xA0, CHR 0xA0)]"

definition digit_class :: "(char \<times> char) list" where
  "digit_class = [(CHR ''0'', CHR ''9'')]"

section \<open>Metadata extraction: circular number and subject\<close>

text \<open>\<^verbatim>\<open>/SEBI\/[A-Z0-9\/_-]+\/(?:CIR|P)\/[A-Z0-9\/_-]+\/\d{4}\/\d+/i\<close>\<close>

definition code_class :: "(char \<times> char) list" where
  "code_class =
     [(CHR ''A'', CHR ''Z''), (CHR ''0'', CHR ''9''), (CHR ''/'', CHR ''/''),
      (CHR ''_'', CHR ''_''), (CHR ''-'', CHR ''-'')]"

definition canonical_pattern :: regex where
  "canonical_pattern =
     seqs [lits ''SEBI/'', Rep True (Cls code_class) 1 None, lits ''/'',
           Alt (lits ''CIR'') (lits ''P''), lits ''/'',
           Rep True (Cls code_class) 1 None, lits ''/'',
           Rep True (Cls digit_class) 4 (Some 4), lits ''/'',
           Rep True (Cls digit_class) 1 None]"

text \<open>\<^verbatim>\<open>/Circular[:\s]+No\.?\s*([A-Z0-9\/._-]+)/i\<close>\<close>

definition value_class :: "(char \<times> char) list" where
  "value_class =
     [(CHR ''A'', CHR ''Z''), (CHR ''0'', CHR ''9''), (CHR ''/'', CHR ''/''),
      (CHR ''.'', CHR ''.''), (CHR ''_'', CHR ''_''), (CHR ''-'', CHR ''-'')]"

definition generic_label :: regex where
  "generic_label =
     seqs [lits ''Circular'', Rep True (Cls ((CHR '':'', CHR '':'') # space_class)) 1 None,
           lits ''No'', Rep True (Lit CHR ''.'') 0 (Some 1),
           Rep True (Cls space_class) 0 None]"

definition generic_pattern :: regex where
  "generic_pattern = Seq generic_label (Group (Rep True (Cls value_class) 1 None))"

text \<open>
  \<open>extractCircularNumber\<close>: the first pattern that matches decides; the result is
  \<open>match[0]\<close> when that includes a slash and \<open>match[1]\<close> otherwise, and \<open>null\<close>
  when no pattern matches.
\<close>

fun circular_number_loop :: "regex list \<Rightarrow> string \<Rightarrow> 'n jsval" where
  "circular_number_loop [] text = JNull"
| "circular_number_loop (pattern # patterns) text =
     (case str_match text pattern of
        Some m \<Rightarrow>
          (if includes_str (whole m) ''/'' then JStr (whole m)
           else case group1 m of Some g \<Rightarrow> JStr g | None \<Rightarrow> JUndefined)
      | None \<Rightarrow> circular_number_loop patterns text)"

definition extractCircularNumber :: "string \<Rightarrow> 'n jsval" where
  "extractCircularNumber text = circular_number_loop [canonical_pattern, generic_pattern] text"

text \<open>\<^verbatim>\<open>/Subject:\s*(.+?)(?:\n|$)/i\<close> and \<^verbatim>\<open>/Re:\s*(.+?)(?:\n|$)/i\<close>\<close>

definition labelled_line :: "string \<Rightarrow> regex" where
  "labelled_line label =
     seqs [lits label, Rep True (Cls space_class) 0 None, Group (Rep False Dot 1 None),
           Alt (Atom (Lit CHR 0x0A)) EndAnchor]"

definition subject_pattern :: regex where
  "subject_pattern = labelled_line ''Subject:''"

definition re_pattern :: regex where
  "re_pattern = labelled_line ''Re:''"

text \<open>\<open>s.replace(/\s+/g, ' ')\<close>: every maximal run of white space becomes one space.\<close>

function collapse_spaces :: "string \<Rightarrow> string" where
  "collapse_spaces [] = []"
| "collapse_spaces (c # cs) =
     (if is_space c then CHR '' '' # collapse_spaces (dropWhile is_space cs)
      else c # collapse_spaces cs)"
  by pat_completeness auto
termination
  by (relation "measure length") (auto simp: length_dropWhile_le less_Suc_eq_le)

text \<open>
  \<open>extractSubject\<close>: a pattern that matches yields its trimmed, collapsed capture when
  that is longer than 10; otherwise the next pattern is tried. \<open>match[1].trim()\<close> on an
  undefined group would be a TypeError.
\<close>

fun subject_loop :: "regex list \<Rightarrow> string \<Rightarrow> js_error + string option" where
  "subject_loop [] text = Inr None"
| "subject_loop (pattern # patterns) text =
     (case str_match text pattern of
        Some m \<Rightarrow>
          (case group1 m of
             None \<Rightarrow> Inl TypeError
           | Some g \<Rightarrow>
               (let subject = collapse_spaces (trim g) in
                if length subject > 10 then Inr (Some subject)
                else subject_loop patterns text))
      | None \<Rightarrow> subject_loop patterns text)"

definition extractSubject :: "string \<Rightarrow> js_error + string option" where
  "extractSubject text = subject_loop [subject_pattern, re_pattern] text"

section \<open>The local index\<close>

text \<open>
  \<open>this.localCirculars\<close>: a plain object keyed by file name. The entries are what
  \<open>loadLocalCirculars\<close> stores; the three extracted fields are a string or \<open>null\<close>.
\<close>

record 'n circular =
  file_path :: string
  filename :: string
  circular_number :: "'n jsval"
  subject :: "'n jsval"
  date :: "'n jsval"
  key_terms :: "string list"

type_synonym 'n local_index = "(string \<times> 'n circular) list"

text \<open>
  The object is created by \<open>{}\<close>, so it inherits the properties of
  \<open>Object.prototype\<close>, and the \<open>in\<close> operator sees inherited properties too.
\<close>

definition Object_prototype_names :: "string list" where
  "Object_prototype_names =
     [''constructor'', ''__defineGetter__'', ''__defineSetter__'', ''hasOwnProperty'',
      ''__lookupGetter__'', ''__lookupSetter__'', ''isPrototypeOf'', ''propertyIsEnumerable'',
      ''toString'', ''valueOf'', ''__proto__'', ''toLocaleString'']"

definition key_in :: "string \<Rightarrow> 'n local_index \<Rightarrow> bool" where
  "key_in k idx = (k \<in> fst ` set idx \<or> k \<in> set Object_prototype_names)"

text \<open>
  \<open>this.localCirculars[k].field\<close> for a \<open>k\<close> that is \<open>in\<close> the object: the field
  of the own entry, and \<open>undefined\<close> for an inherited member (a built-in function or
  the prototype object, which have none of these fields).
\<close>

definition member_field :: "'n local_index \<Rightarrow> string \<Rightarrow> ('n circular \<Rightarrow> 'n jsval) \<Rightarrow> 'n jsval" where
  "member_field idx k field = (case map_of idx k of Some entry \<Rightarrow> field entry | None \<Rightarrow> JUndefined)"

section \<open>Resolution: enhanceReferencesWithAvailability\<close>

text \<open>
  The body of the loop for one \<open>ref\<close>: \<open>Inr None\<close> is the \<open>continue\<close> of a
  self-reference (the copy that was being built is dropped with it), \<open>Inr (Some r)\<close>
  the object pushed, \<open>Inl\<close> an exception. \<open>ToString\<close> is the conversion of the
  operand of \<open>in\<close> to a property key.
\<close>

definition enhance_ref ::
  "'n number_ops \<Rightarrow> 'n local_index \<Rightarrow> string \<Rightarrow> 'n jsval \<Rightarrow> js_error + 'n jsobj option" where
  "enhance_ref ops idx sourceFilename ref =
     (let enhancedRef = spread ref in
      case get_prop ref ''matched_target'' of
        Inl e \<Rightarrow> Inl e
      | Inr target \<Rightarrow>
          let matchedTarget = (if ToBoolean ops target then target else JStr []) in
          case ToString ops matchedTarget of
            Inl e \<Rightarrow> Inl e
          | Inr key \<Rightarrow>
              let isSelfReference =
                    (key_in key idx \<and>
                     member_field idx key (\<lambda>entry. JStr (filename entry)) = JStr sourceFilename)
              in
              if isSelfReference then Inr None
              else if key_in key idx then
                Inr (Some
                  (AList.update ''local_file''
                     (JObj
                       [(''filename'', member_field idx key (\<lambda>entry. JStr (filename entry))),
                        (''file_path'', member_field idx key (\<lambda>entry. JStr (file_path entry))),
                        (''circular_number'', member_field idx key circular_number),
                        (''subject'', member_field idx key subject),
                        (''date'', member_field idx key date)])
                     (AList.update ''availability_status'' (JStr ''available_locally'')
                        enhancedRef)))
              else
                Inr (Some
                  (AList.update ''note'' (JStr ''Referenced document not in local collection'')
                     (AList.update ''availability_status'' (JStr ''external_reference'')
                        enhancedRef))))"

fun enhance_loop ::
  "'n number_ops \<Rightarrow> 'n local_index \<Rightarrow> string \<Rightarrow> 'n jsval list \<Rightarrow> js_error + 'n jsobj list" where
  "enhance_loop ops idx sourceFilename [] = Inr []"
| "enhance_loop ops idx sourceFilename (ref # refs) =
     (case enhance_ref ops idx sourceFilename ref of
        Inl e \<Rightarrow> Inl e
      | Inr None \<Rightarrow> enhance_loop ops idx sourceFilename refs
      | Inr (Some enhancedRef) \<Rightarrow>
          (case enhance_loop ops idx sourceFilename refs of
             Inl e \<Rightarrow> Inl e
           | Inr enhancedReferences \<Rightarrow> Inr (enhancedRef # enhancedReferences)))"

definition enhanceReferencesWithAvailability ::
  "'n number_ops \<Rightarrow> 'n local_index \<Rightarrow> 'n jsval \<Rightarrow> string \<Rightarrow> js_error + 'n jsobj list" where
  "enhanceReferencesWithAvailability ops idx references sourceFilename =
     (case iterate references of
        Inl e \<Rightarrow> Inl e
      | Inr refs \<Rightarrow> enhance_loop ops idx sourceFilename refs)"

section \<open>Aggregation: saveResults\<close>

text \<open>\<open>r.availability_status === status\<close> on an enhanced reference.\<close>

definition has_status :: "string \<Rightarrow> 'n jsobj \<Rightarrow> bool" where
  "has_status status r = (map_of r ''availability_status'' = Some (JStr status))"

text \<open>
  The report that \<open>saveResults\<close> writes. The time stamp, the resolved path and the two
  constant texts of the report are left out: they depend on the clock and the file system
  only.
\<close>

record 'n output_data =
  source_file :: string
  local_circulars_scanned :: nat
  summary_total_references :: nat
  summary_local_references :: nat
  summary_external_references :: nat
  local_references :: "'n jsobj list"
  external_references :: "'n jsobj list"
  all_references :: "'n jsobj list"

definition saveResults :: "'n local_index \<Rightarrow> 'n jsobj list \<Rightarrow> string \<Rightarrow> 'n output_data" where
  "saveResults idx references sourceFilename =
     (let localRefs = filter (has_status ''available_locally'') references;
          externalRefs = filter (has_status ''external_reference'') references
      in \<lparr>source_file = sourceFilename,
          local_circulars_scanned = length (remdups (map fst idx)),
          summary_total_references = length references,
          summary_local_references = length localRefs,
          summary_external_references = length externalRefs,
          local_references = localRefs,
          external_references = externalRefs,
          all_references = references\<rparr>)"

section \<open>Normalisation: analyzeWithEnhancedAI\<close>

text \<open>The cleaning of the response text: trim, strip the code-fence markers, trim.\<close>

definition clean_response :: "string \<Rightarrow> string" where
  "clean_response text =
     (let responseText = trim text;
          responseText = (if startsWith responseText ''```json''
                          then drop 7 responseText else responseText);
          responseText = (if startsWith responseText ''```''
                          then drop 3 responseText else responseText);
          responseText = (if endsWith responseText ''```''
                          then take (length responseText - 3) responseText else responseText)
      in trim responseText)"

text \<open>
  The text of \<open>${references.length}\<close> in the success message: a TypeError on
  \<open>null\<close>, the length of an array or a string, and for an object whatever its own
  property \<open>length\<close> prints as.
\<close>

definition length_text :: "'n number_ops \<Rightarrow> 'n jsval \<Rightarrow> js_error + string" where
  "length_text ops references =
     (case references of
        JUndefined \<Rightarrow> Inl TypeError
      | JNull \<Rightarrow> Inl TypeError
      | JArr xs \<Rightarrow> Inr (show_nat (length xs))
      | JStr s \<Rightarrow> Inr (show_nat (length s))
      | JObj kvs \<Rightarrow> ToString ops (case map_of kvs ''length'' of Some v \<Rightarrow> v | None \<Rightarrow> JUndefined)
      | _ \<Rightarrow> Inr ''undefined'')"

text \<open>
  \<open>analyzeWithEnhancedAI\<close>. \<open>JSON.parse\<close> is a built-in of the language and a
  parameter here: \<open>None\<close> is its SyntaxError. \<open>fullText\<close> is what
  \<open>extractTextFromPdf\<close> returned, \<open>response\<close> the text of the inference
  collaborator, or the exception of the call. \<open>try_block\<close> is the body of the
  \<open>try\<close>; the \<open>catch\<close> turns every exception into the empty array.
\<close>

definition try_block ::
  "'n number_ops \<Rightarrow> (string \<Rightarrow> 'n jsval option) \<Rightarrow> js_error + string \<Rightarrow> js_error + 'n jsval" where
  "try_block ops JSON_parse response =
     (case response of
        Inl e \<Rightarrow> Inl e
      | Inr text \<Rightarrow>
          (case JSON_parse (clean_response text) of
             None \<Rightarrow> Inl SyntaxError
           | Some references \<Rightarrow>
               (case length_text ops references of
                  Inl e \<Rightarrow> Inl e
                | Inr message \<Rightarrow> Inr references)))"

definition analyzeWithEnhancedAI ::
  "'n number_ops \<Rightarrow> (string \<Rightarrow> 'n jsval option) \<Rightarrow> string \<Rightarrow> js_error + string
     \<Rightarrow> js_error + 'n jsval" where
  "analyzeWithEnhancedAI ops JSON_parse fullText response =
     (if fullText = [] then Inr (JArr [])
      else case try_block ops JSON_parse response of
             Inl error \<Rightarrow> Inr (JArr [])
           | Inr references \<Rightarrow> Inr references)"

text \<open>
  An excerpt of \<open>JSON.parse\<close> for the examples: the listed texts parse to the listed
  values, every other text is rejected. The examples apply it to the listed texts and to
  texts that are no JSON at all.
\<close>

definition JSON_parse_excerpt :: "string \<Rightarrow> int jsval option" where
  "JSON_parse_excerpt =
     map_of
       [(''[]'', JArr []),
        (''[{}]'', JArr [JObj []]),
        (''{\"references\": []}'', JObj [(''references'', JArr [])]),
        (''7'', JNum 7),
        (''\"no\"'', JStr ''no'')]"

section \<open>The action of main\<close>

text \<open>
  The action of \<open>main\<close> after its two checks of the argument, from the loaded index
  on: it exits with status 1 on an empty index, and the \<open>catch\<close> around the whole
  action exits with status 1 on every exception. \<open>formatResults\<close> only prints; the
  text it prints is not modelled, and it enters as the parameter that says whether the
  printing raises. \<open>sourceFilename\<close> is the base name of the argument.
\<close>

datatype 'n outcome = Exit_1 | Completed "'n output_data"

definition main_action ::
  "'n number_ops \<Rightarrow> (string \<Rightarrow> 'n jsval option) \<Rightarrow> ('n jsobj list \<Rightarrow> js_error + unit)
     \<Rightarrow> 'n local_index \<Rightarrow> string \<Rightarrow> string \<Rightarrow> js_error + string \<Rightarrow> 'n outcome" where
  "main_action ops JSON_parse formatResults idx sourceFilename fullText response =
     (if length (remdups (map fst idx)) = 0 then Exit_1
      else case analyzeWithEnhancedAI ops JSON_parse fullText response of
             Inl error \<Rightarrow> Exit_1
           | Inr references \<Rightarrow>
               (case enhanceReferencesWithAvailability ops idx references sourceFilename of
                  Inl error \<Rightarrow> Exit_1
                | Inr enhancedReferences \<Rightarrow>
                    (case formatResults enhancedReferences of
                       Inl error \<Rightarrow> Exit_1
                     | Inr printed \<Rightarrow>
                         Completed (saveResults idx enhancedReferences sourceFilename))))"

section \<open>Rendering: the defaults of formatResults\<close>




section \<open>Notions of the specification about patterns\<close>

text \<open>
  The words a pattern can match, without regard to the order of attempts: the declarative
  reading of the fragment, used to state what a match looks like.
\<close>

fun accepts :: "regex \<Rightarrow> string \<Rightarrow> bool" where
  "accepts Empty w = (w = [])"
| "accepts (Atom a) w = (\<exists>c. w = [c] \<and> atom_ok a c)"
| "accepts (Rep greedy a lo hi) w =
     (lo \<le> length w \<and> list_all (atom_ok a) w \<and>
      (case hi of None \<Rightarrow> True | Some n \<Rightarrow> length w \<le> n))"
| "accepts (Seq r1 r2) w = (\<exists>u v. w = u @ v \<and> accepts r1 u \<and> accepts r2 v)"
| "accepts (Alt r1 r2) w = (accepts r1 w \<or> accepts r2 w)"
| "accepts (Group r) w = accepts r w"
| "accepts EndAnchor w = (w = [])"

text \<open>Whether a pattern has no capture group, and the atoms it is built from.\<close>

fun group_free :: "regex \<Rightarrow> bool" where
  "group_free (Seq r1 r2) = (group_free r1 \<and> group_free r2)"
| "group_free (Alt r1 r2) = (group_free r1 \<and> group_free r2)"
| "group_free (Group r) = False"
| "group_free r = True"

fun atoms :: "regex \<Rightarrow> atom list" where
  "atoms (Atom a) = [a]"
| "atoms (Rep greedy a lo hi) = [a]"
| "atoms (Seq r1 r2) = atoms r1 @ atoms r2"
| "atoms (Alt r1 r2) = atoms r1 @ atoms r2"
| "atoms (Group r) = atoms r"
| "atoms r = []"

text \<open>
  The labelled subject line of a text for one of the two label patterns, after trimming
  and collapsing internal white space; \<open>None\<close> when the pattern does not match.
\<close>

definition labelled_subject :: "regex \<Rightarrow> string \<Rightarrow> string option" where
  "labelled_subject pattern doc =
     (case str_match doc pattern of
        None \<Rightarrow> None
      | Some m \<Rightarrow> map_option (\<lambda>g. collapse_spaces (trim g)) (group1 m))"

section \<open>Notions of the specification about resolution\<close>

text \<open>
  A candidate whose \<open>matched_target\<close> is a key of the local index and whose matched entry
  carries the file name of the document under analysis.
\<close>

definition self_candidate :: "'n local_index \<Rightarrow> string \<Rightarrow> 'n jsval \<Rightarrow> bool" where
  "self_candidate idx sourceFilename r =
     (\<exists>kvs k entry. r = JObj kvs \<and> map_of kvs ''matched_target'' = Some (JStr k)
        \<and> map_of idx k = Some entry \<and> filename entry = sourceFilename)"

text \<open>The index of the scenarios in the specification: one circular, \<open>circA.pdf\<close>.\<close>

definition scenario_index :: "int local_index" where
  "scenario_index =
     [(''circA.pdf'',
       \<lparr>file_path = ''/srv/circulars/circA.pdf'', filename = ''circA.pdf'',
        circular_number = JStr ''SEBI/X/1'', subject = JNull, date = JNull,
        key_terms = []\<rparr>)]"

section \<open>Code units\<close>

lemma code_unit_less: "code_unit c < 256"
  by (simp add: code_unit_def)

lemma code_unit_eq_iff: "code_unit a = code_unit b \<longleftrightarrow> a = b"
  by (simp add: code_unit_def)

lemma code_unit_char_of: "n < 256 \<Longrightarrow> code_unit (char_of n) = n"
  by (simp add: code_unit_def)

lemma code_unit_canonicalize:
  "code_unit (canonicalize c) =
     (if (97 \<le> code_unit c \<and> code_unit c \<le> 122)
         \<or> (224 \<le> code_unit c \<and> code_unit c \<le> 254 \<and> code_unit c \<noteq> 247)
      then code_unit c - 32 else code_unit c)"
  using code_unit_less [of c] by (simp add: canonicalize_def Let_def code_unit_char_of)

lemma code_unit_lower_char:
  "code_unit (lower_char c) =
     (if (65 \<le> code_unit c \<and> code_unit c \<le> 90)
         \<or> (192 \<le> code_unit c \<and> code_unit c \<le> 222 \<and> code_unit c \<noteq> 215)
      then code_unit c + 32 else code_unit c)"
  using code_unit_less [of c] by (simp add: lower_char_def Let_def code_unit_char_of)

section \<open>Properties of key-term extraction\<close>

lemma includes_sublist: "includes_str s p = sublist p s"
proof (induction s)
  case Nil
  then show ?case by simp
next
  case (Cons c cs)
  then show ?case by (simp add: sublist_Cons_right)
qed

lemma collect_terms_filter:
  "collect_terms low ts acc = acc @ filter (includes_str low) ts"
  by (induction ts arbitrary: acc) simp_all

lemma lower_char_same_letter:
  assumes "small_or_space d"
  shows "lower_char c = d \<longleftrightarrow> same_letter c d"
proof -
  have "code_unit (lower_char c) = code_unit d \<longleftrightarrow>
      code_unit c = code_unit d
      \<or> (65 \<le> code_unit c \<and> code_unit c \<le> 90 \<and> code_unit d = code_unit c + 32)
      \<or> (65 \<le> code_unit d \<and> code_unit d \<le> 90 \<and> code_unit c = code_unit d + 32)"
    using assms unfolding code_unit_lower_char small_or_space_def by auto
  then show ?thesis
    by (simp only: code_unit_eq_iff same_letter_def capital_of_def)
qed

lemma toLowerCase_same_letters:
  "list_all small_or_space entry \<Longrightarrow>
     toLowerCase w = entry \<longleftrightarrow> list_all2 same_letter w entry"
proof (induction w arbitrary: entry)
  case Nil
  then show ?case by (auto simp: toLowerCase_def)
next
  case (Cons c w)
  show ?case
  proof (cases entry)
    case Nil
    then show ?thesis by (simp add: toLowerCase_def)
  next
    case (Cons d rest)
    with Cons.prems have d: "small_or_space d" and rest: "list_all small_or_space rest"
      by simp_all
    from Cons.IH [OF rest] lower_char_same_letter [OF d, of c] Cons
    show ?thesis by (simp add: toLowerCase_def)
  qed
qed

lemma includes_lower_piece:
  "includes_str (toLowerCase text) entry \<longleftrightarrow>
     (\<exists>u w v. text = u @ w @ v \<and> toLowerCase w = entry)"
proof
  assume "includes_str (toLowerCase text) entry"
  then obtain ps ss where split: "map lower_char text = ps @ entry @ ss"
    by (auto simp: includes_sublist sublist_def toLowerCase_def)
  define u where "u = take (length ps) text"
  define w where "w = take (length entry) (drop (length ps) text)"
  define v where "v = drop (length entry) (drop (length ps) text)"
  have "w @ v = drop (length ps) text"
    unfolding w_def v_def by (rule append_take_drop_id)
  then have "text = u @ w @ v"
    unfolding u_def by (metis append_take_drop_id)
  moreover have "map lower_char w = take (length entry) (drop (length ps) (map lower_char text))"
    by (simp add: w_def take_map drop_map)
  then have "toLowerCase w = entry"
    by (simp add: split toLowerCase_def)
  ultimately show "\<exists>u w v. text = u @ w @ v \<and> toLowerCase w = entry"
    by blast
next
  assume "\<exists>u w v. text = u @ w @ v \<and> toLowerCase w = entry"
  then obtain u w v where "text = u @ w @ v" "toLowerCase w = entry"
    by blast
  then have "toLowerCase text = toLowerCase u @ entry @ toLowerCase v"
    by (simp add: toLowerCase_def)
  then show "includes_str (toLowerCase text) entry"
    by (simp add: includes_sublist)
qed

lemma includes_lower_occurs:
  assumes "list_all small_or_space entry"
  shows "includes_str (toLowerCase text) entry = occurs_ci entry text"
  unfolding includes_lower_piece occurs_ci_def
  using toLowerCase_same_letters [OF assms] by simp

lemma terms_small_or_space: "list_all (list_all small_or_space) terms"
  by code_simp

text \<open>
  C9. The key terms of a text are exactly the vocabulary entries that occur in it
  case-insensitively, listed in vocabulary order; the vocabulary has 18 distinct entries;
  the result is a function of the text alone.
\<close>

theorem extractKeyTerms_vocabulary_order:
  "extractKeyTerms text = filter (\<lambda>entry. occurs_ci entry text) terms
   \<and> length terms = 18 \<and> distinct terms
   \<and> subseq (extractKeyTerms text) terms"
proof -
  have "includes_str (toLowerCase text) entry = occurs_ci entry text"
    if "entry \<in> set terms" for entry
    using that terms_small_or_space by (simp add: includes_lower_occurs list_all_iff)
  then have "filter (includes_str (toLowerCase text)) terms
      = filter (\<lambda>entry. occurs_ci entry text) terms"
    by (simp cong: filter_cong)
  then have eq: "extractKeyTerms text = filter (\<lambda>entry. occurs_ci entry text) terms"
    by (simp add: extractKeyTerms_def collect_terms_filter)
  have len: "length terms = 18"
    by (simp add: terms_def)
  have dist: "distinct terms"
    by (simp add: terms_def)
  have sub: "subseq (extractKeyTerms text) terms"
    unfolding eq by simp
  from eq len dist sub show ?thesis by simp
qed

text \<open>
  On concrete texts: capitals in the text match the small letters of the vocabulary, and
  the result follows the vocabulary, not the text, in which \<open>audit\<close> comes first.
\<close>

theorem extractKeyTerms_vocabulary_order_witness:
  "extractKeyTerms ''KYC and AML'' = [''kyc'', ''aml'']
   \<and> filter (\<lambda>entry. occurs_ci entry ''KYC and AML'') terms = [''kyc'', ''aml'']
   \<and> extractKeyTerms ''An AUDIT of Mutual Fund Kyc norms''
       = [''mutual fund'', ''audit'', ''norms'', ''kyc'']
   \<and> filter (\<lambda>entry. occurs_ci entry ''An AUDIT of Mutual Fund Kyc norms'') terms
       = [''mutual fund'', ''audit'', ''norms'', ''kyc'']
   \<and> extractKeyTerms ''no vocabulary here'' = []"
proof -
  have a: "extractKeyTerms ''KYC and AML'' = [''kyc'', ''aml'']"
    by code_simp
  have b: "extractKeyTerms ''An AUDIT of Mutual Fund Kyc norms''
       = [''mutual fund'', ''audit'', ''norms'', ''kyc'']"
    by code_simp
  have c: "extractKeyTerms ''no vocabulary here'' = []"
    by code_simp
  from extractKeyTerms_vocabulary_order [of "''KYC and AML''"] a
  have a': "filter (\<lambda>entry. occurs_ci entry ''KYC and AML'') terms = [''kyc'', ''aml'']"
    by simp
  from extractKeyTerms_vocabulary_order [of "''An AUDIT of Mutual Fund Kyc norms''"] b
  have b': "filter (\<lambda>entry. occurs_ci entry ''An AUDIT of Mutual Fund Kyc norms'') terms
       = [''mutual fund'', ''audit'', ''norms'', ''kyc'']"
    by simp
  from a a' b b' c show ?thesis by simp
qed

section \<open>Properties of resolution and aggregation\<close>

lemma enhance_ref_status:
  assumes "enhance_ref ops idx src r = Inr (Some e)"
  shows "has_status ''available_locally'' e \<noteq> has_status ''external_reference'' e"
  using assms
  by (auto simp: enhance_ref_def Let_def has_status_def update_conv'
           split: sum.splits if_splits)

lemma enhance_loop_status:
  "enhance_loop ops idx src refs = Inr out \<Longrightarrow> e \<in> set out \<Longrightarrow>
     has_status ''available_locally'' e \<noteq> has_status ''external_reference'' e"
proof (induction refs arbitrary: out)
  case Nil
  then show ?case by simp
next
  case (Cons r refs)
  then show ?case
    by (auto split: sum.splits option.splits dest: enhance_ref_status)
qed


lemma last_show_nat: "last (show_nat n) = digit_char (n mod 10)"
  by (subst show_nat.simps) simp

lemma show_nat_not_matched_target: "show_nat n \<noteq> ''matched_target''"
proof
  assume "show_nat n = ''matched_target''"
  then have "last (show_nat n) = CHR ''t''" by simp
  then have "digit_char (n mod 10) = CHR ''t''" by (simp add: last_show_nat)
  then have "of_char (char_of (48 + n mod 10)) = (of_char (CHR ''t'') :: nat)"
    by (simp add: digit_char_def)
  moreover have "n mod 10 < 10" by simp
  ultimately show False by (simp add: )
qed


lemma map_of_indices_matched_target:
  "map_of (zip (map show_nat [0..<n]) xs) ''matched_target'' = None"
proof -
  have ne: "''matched_target'' \<noteq> show_nat m" for m
    using show_nat_not_matched_target [of m] by metis
  have "''matched_target'' \<notin> fst ` set (zip (map show_nat [0..<n]) xs)"
  proof
    assume "''matched_target'' \<in> fst ` set (zip (map show_nat [0..<n]) xs)"
    then obtain v where "(''matched_target'', v) \<in> set (zip (map show_nat [0..<n]) xs)"
      by force
    then have "''matched_target'' \<in> set (map show_nat [0..<n])"
      by (rule set_zip_leftD)
    then obtain m where "''matched_target'' = show_nat m"
      by (auto simp del: show_nat.simps)
    with ne show False by blast
  qed
  then show ?thesis
    by (simp add: map_of_eq_None_iff)
qed

lemma spread_matched_target:
  "map_of (spread r) ''matched_target'' = Some v \<Longrightarrow> \<exists>kvs. r = JObj kvs \<and> map_of kvs ''matched_target'' = Some v"
  by (cases r) (simp_all add: spread_def map_of_indices_matched_target)

lemma self_candidate_dropped:
  assumes "self_candidate idx src r"
  shows "enhance_ref ops idx src r = Inr None"
proof -
  from assms obtain kvs k entry where r: "r = JObj kvs"
    and k: "map_of kvs ''matched_target'' = Some (JStr k)"
    and e: "map_of idx k = Some entry" and f: "filename entry = src"
    unfolding self_candidate_def by blast
  from e have "k \<in> fst ` set idx"
    by (metis map_of_eq_None_iff option.distinct(1))
  then have "key_in k idx" by (simp add: key_in_def)
  with r k e f show ?thesis
    by (cases "k = []") (simp_all add: enhance_ref_def get_prop_def member_field_def)
qed

lemma enhanced_not_self:
  assumes "enhance_ref ops idx src r = Inr (Some e)"
  shows "\<not> self_candidate idx src (JObj e)"
proof
  assume "self_candidate idx src (JObj e)"
  then obtain k entry where k: "map_of e ''matched_target'' = Some (JStr k)"
    and i: "map_of idx k = Some entry" "filename entry = src"
    unfolding self_candidate_def by auto
  from assms have "map_of e ''matched_target'' = map_of (spread r) ''matched_target''"
    by (auto simp: enhance_ref_def Let_def update_conv' split: sum.splits if_splits)
  with k obtain kvs where "r = JObj kvs" "map_of kvs ''matched_target'' = Some (JStr k)"
    using spread_matched_target by metis
  with i have "self_candidate idx src r"
    unfolding self_candidate_def by blast
  then have "enhance_ref ops idx src r = Inr None"
    by (rule self_candidate_dropped)
  with assms show False by simp
qed

lemma enhance_loop_not_self:
  "enhance_loop ops idx src refs = Inr out \<Longrightarrow> e \<in> set out \<Longrightarrow> \<not> self_candidate idx src (JObj e)"
proof (induction refs arbitrary: out)
  case Nil
  then show ?case by simp
next
  case (Cons r refs)
  then show ?case
    by (auto split: sum.splits option.splits dest: enhanced_not_self)
qed

lemma enhance_loop_without_self:
  "enhance_loop ops idx src refs = Inr out \<Longrightarrow>
   enhance_loop ops idx src (filter (\<lambda>r. \<not> self_candidate idx src r) refs) = Inr out"
proof (induction refs arbitrary: out)
  case Nil
  then show ?case by simp
next
  case (Cons r refs)
  show ?case
  proof (cases "self_candidate idx src r")
    case True
    then have "enhance_ref ops idx src r = Inr None" by (rule self_candidate_dropped)
    with Cons True show ?thesis by simp
  next
    case False
    with Cons show ?thesis
      by (auto split: sum.splits option.splits)
  qed
qed

lemma enhance_loop_length:
  "enhance_loop ops idx src refs = Inr out \<Longrightarrow>
   length out + length (filter (self_candidate idx src) refs) \<le> length refs"
proof (induction refs arbitrary: out)
  case Nil
  then show ?case by simp
next
  case (Cons r refs)
  show ?case
  proof (cases "self_candidate idx src r")
    case True
    then have "enhance_ref ops idx src r = Inr None" by (rule self_candidate_dropped)
    with Cons True show ?thesis by simp
  next
    case False
    with Cons show ?thesis
      by (fastforce split: sum.splits option.splits)
  qed
qed

lemma length_two_filters:
  "\<forall>x \<in> set xs. P x \<noteq> Q x \<Longrightarrow> length (filter P xs) + length (filter Q xs) = length xs"
  by (induction xs) auto





text \<open>
  C1. Self-reference exclusion: in a run of the resolution over an array of candidates,
  no reference of the report (all, local or external list) is a candidate whose
  matched_target is an index key with the file name of the analysed document; deleting
  those candidates from the input leaves the whole result, hence every list and count of
  the report, as it is; and the reported total counts none of them.
\<close>

theorem self_reference_exclusion:
  assumes "enhanceReferencesWithAvailability ops idx (JArr refs) sourceFilename = Inr enhanced"
  shows "let d = saveResults idx enhanced sourceFilename in
     (\<forall>r \<in> set (all_references d) \<union> set (local_references d) \<union> set (external_references d).
         \<not> self_candidate idx sourceFilename (JObj r))
     \<and> enhanceReferencesWithAvailability ops idx
           (JArr (filter (\<lambda>r. \<not> self_candidate idx sourceFilename r) refs)) sourceFilename
         = Inr enhanced
     \<and> summary_total_references d + length (filter (self_candidate idx sourceFilename) refs)
         \<le> length refs
     \<and> summary_local_references d + summary_external_references d
         \<le> summary_total_references d"
proof -
  from assms have loop: "enhance_loop ops idx sourceFilename refs = Inr enhanced"
    by (simp add: enhanceReferencesWithAvailability_def iterate_def)
  have none: "\<forall>r \<in> set enhanced. \<not> self_candidate idx sourceFilename (JObj r)"
    using enhance_loop_not_self [OF loop] by blast
  have same: "enhanceReferencesWithAvailability ops idx
      (JArr (filter (\<lambda>r. \<not> self_candidate idx sourceFilename r) refs)) sourceFilename
      = Inr enhanced"
    using enhance_loop_without_self [OF loop]
    by (simp add: enhanceReferencesWithAvailability_def iterate_def)
  have total: "length enhanced + length (filter (self_candidate idx sourceFilename) refs)
      \<le> length refs"
    using loop by (rule enhance_loop_length)
  have one: "\<forall>e \<in> set enhanced.
      has_status ''available_locally'' e \<noteq> has_status ''external_reference'' e"
    using enhance_loop_status [OF loop] by blast
  have counts: "length (filter (has_status ''available_locally'') enhanced)
      + length (filter (has_status ''external_reference'') enhanced) = length enhanced"
    using one by (rule length_two_filters)
  show ?thesis
    unfolding Let_def saveResults_def using none same total counts by auto
qed

theorem self_reference_exclusion_witness:
  "enhanceReferencesWithAvailability integer_ops scenario_index
      (JArr [JObj [(''matched_target'', JStr ''circA.pdf'')],
             JObj [(''matched_target'', JStr ''unknown.pdf'')]]) ''circA.pdf''
     = Inr [[(''matched_target'', JStr ''unknown.pdf''),
             (''availability_status'', JStr ''external_reference''),
             (''note'', JStr ''Referenced document not in local collection'')]]
   \<and> self_candidate scenario_index ''circA.pdf'' (JObj [(''matched_target'', JStr ''circA.pdf'')])
   \<and> enhanceReferencesWithAvailability integer_ops scenario_index
      (JArr [JObj [(''matched_target'', JStr ''unknown.pdf'')]]) ''circA.pdf''
     = Inr [[(''matched_target'', JStr ''unknown.pdf''),
             (''availability_status'', JStr ''external_reference''),
             (''note'', JStr ''Referenced document not in local collection'')]]
   \<and> summary_total_references (saveResults scenario_index
         [[(''matched_target'', JStr ''unknown.pdf''),
           (''availability_status'', JStr ''external_reference''),
           (''note'', JStr ''Referenced document not in local collection'')]] ''circA.pdf'') = 1"
proof -
  have run: "enhanceReferencesWithAvailability integer_ops scenario_index
      (JArr [JObj [(''matched_target'', JStr ''circA.pdf'')],
             JObj [(''matched_target'', JStr ''unknown.pdf'')]]) ''circA.pdf''
     = Inr [[(''matched_target'', JStr ''unknown.pdf''),
             (''availability_status'', JStr ''external_reference''),
             (''note'', JStr ''Referenced document not in local collection'')]]"
    by (simp add: enhanceReferencesWithAvailability_def iterate_def enhance_ref_def
        get_prop_def spread_def key_in_def member_field_def scenario_index_def
        Object_prototype_names_def integer_ops_def)
  have self: "self_candidate scenario_index ''circA.pdf''
      (JObj [(''matched_target'', JStr ''circA.pdf'')])"
    by (simp add: self_candidate_def scenario_index_def)
  have other: "\<not> self_candidate scenario_index ''circA.pdf''
      (JObj [(''matched_target'', JStr ''unknown.pdf'')])"
    by (simp add: self_candidate_def scenario_index_def)
  from self_reference_exclusion [OF run] self other run show ?thesis
    by (simp add: Let_def saveResults_def)
qed

text \<open>
  C2. A candidate whose matched_target is not a key of the local index must resolve as
  external_reference. For the target \<open>constructor\<close>, which is no key of the index but
  the name of a property every object inherits, the resolution answers
  available_locally, with a snapshot of undefined fields.
\<close>

theorem inherited_name_resolves_locally:
  "enhanceReferencesWithAvailability integer_ops scenario_index
      (JArr [JObj [(''matched_target'', JStr ''constructor'')]]) ''doc.pdf''
     = Inr [[(''matched_target'', JStr ''constructor''),
             (''availability_status'', JStr ''available_locally''),
             (''local_file'',
              JObj [(''filename'', JUndefined), (''file_path'', JUndefined),
                    (''circular_number'', JUndefined), (''subject'', JUndefined),
                    (''date'', JUndefined)])]]"
  by (simp add: enhanceReferencesWithAvailability_def iterate_def enhance_ref_def
      get_prop_def spread_def key_in_def member_field_def scenario_index_def
      Object_prototype_names_def integer_ops_def)

text \<open>
  What does hold: a string target that is neither a key of the index nor the name of an
  inherited property, and a missing or empty target when the empty string is no key,
  resolve as external_reference.
\<close>

lemma foreign_target_external:
  assumes "map_of kvs ''matched_target'' = Some (JStr k)"
    and "k \<notin> fst ` set idx" and "k \<notin> set Object_prototype_names"
  shows "enhance_ref ops idx src (JObj kvs) =
     Inr (Some (AList.update ''note'' (JStr ''Referenced document not in local collection'')
       (AList.update ''availability_status'' (JStr ''external_reference'') kvs)))"
  using assms
  by (cases "k = []") (simp_all add: enhance_ref_def get_prop_def spread_def key_in_def)

lemma missing_target_external:
  assumes "map_of kvs ''matched_target'' = None \<or> map_of kvs ''matched_target'' = Some (JStr [])"
    and "[] \<notin> fst ` set idx"
  shows "enhance_ref ops idx src (JObj kvs) =
     Inr (Some (AList.update ''note'' (JStr ''Referenced document not in local collection'')
       (AList.update ''availability_status'' (JStr ''external_reference'') kvs)))"
  using assms
  by (auto simp: enhance_ref_def get_prop_def spread_def key_in_def Object_prototype_names_def)

section \<open>Properties of normalisation\<close>

lemma analyze_returns:
  "\<exists>references. analyzeWithEnhancedAI ops JSON_parse fullText response = Inr references"
  by (simp add: analyzeWithEnhancedAI_def split: sum.splits)

lemma analyze_undecodable:
  assumes "JSON_parse (clean_response payload) = None"
  shows "analyzeWithEnhancedAI ops JSON_parse fullText (Inr payload) = Inr (JArr [])"
  using assms by (simp add: analyzeWithEnhancedAI_def try_block_def)

lemma analyze_collaborator_failure:
  "analyzeWithEnhancedAI ops JSON_parse fullText (Inl e) = Inr (JArr [])"
  by (simp add: analyzeWithEnhancedAI_def try_block_def)

lemma enhance_empty:
  "enhanceReferencesWithAvailability ops idx (JArr []) sourceFilename = Inr []"
  by (simp add: enhanceReferencesWithAvailability_def iterate_def)

text \<open>
  A payload that parses to a value that is no array and no string is not a decoding
  failure: the call returns the value, and the loop of the resolution raises.
\<close>

lemma non_iterable_payload_raises:
  "enhanceReferencesWithAvailability ops idx (JObj kvs) sourceFilename = Inl TypeError"
  "enhanceReferencesWithAvailability ops idx (JNum n) sourceFilename = Inl TypeError"
  "enhanceReferencesWithAvailability ops idx (JBool b) sourceFilename = Inl TypeError"
  by (simp_all add: enhanceReferencesWithAvailability_def iterate_def)

text \<open>
  C3 (as amended). When the cleaned payload cannot be parsed, the normalisation call does
  not fail: it returns the empty sequence, so no partial result; and no response at all
  makes the call raise.
\<close>

theorem undecodable_payload_returns_empty:
  assumes "JSON_parse (clean_response payload) = None"
  shows "analyzeWithEnhancedAI ops JSON_parse fullText (Inr payload) = Inr (JArr [])
     \<and> (\<forall>response. \<exists>references.
           analyzeWithEnhancedAI ops JSON_parse fullText response = Inr references)"
proof -
  have "analyzeWithEnhancedAI ops JSON_parse fullText (Inr payload) = Inr (JArr [])"
    using assms by (rule analyze_undecodable)
  then show ?thesis
    using analyze_returns by blast
qed

theorem undecodable_payload_returns_empty_witness:
  "JSON_parse_excerpt (clean_response ''I could not find any references.'') = None
   \<and> analyzeWithEnhancedAI integer_ops JSON_parse_excerpt ''--- PAGE 1 ---''
        (Inr ''I could not find any references.'') = Inr (JArr [])"
proof -
  have undecodable:
    "JSON_parse_excerpt (clean_response ''I could not find any references.'') = None"
    by code_simp
  from undecodable_payload_returns_empty
      [where JSON_parse = JSON_parse_excerpt and payload = "''I could not find any references.''",
        OF undecodable] undecodable
  show ?thesis by blast
qed

text \<open>
  C3 as stated fails: on a fenced payload that is no JSON the call returns normally, with
  the empty array, where the claim wants a NormalizationError.
\<close>

theorem undecodable_payload_no_error:
  "JSON_parse_excerpt (clean_response ''```json not a list ```'') = None
   \<and> analyzeWithEnhancedAI integer_ops JSON_parse_excerpt ''--- PAGE 1 ---''
        (Inr ''```json not a list ```'') = Inr (JArr [])"
  by code_simp

text \<open>
  The path that the code handles: a payload that the parser rejects after the cleaning
  yields zero candidates. The call returns a value that iterates to the empty sequence,
  the resolution of that value returns the empty list without an exception, and the
  report over it counts zero references.
\<close>

theorem decode_failure_zero_candidates:
  assumes "JSON_parse (clean_response payload) = None"
  shows "\<exists>references.
       analyzeWithEnhancedAI ops JSON_parse fullText (Inr payload) = Inr references
     \<and> iterate references = Inr []
     \<and> enhanceReferencesWithAvailability ops idx references sourceFilename = Inr []
     \<and> summary_total_references (saveResults idx [] sourceFilename) = 0
     \<and> all_references (saveResults idx [] sourceFilename) = []"
proof -
  have "analyzeWithEnhancedAI ops JSON_parse fullText (Inr payload) = Inr (JArr [])"
    using assms by (rule analyze_undecodable)
  moreover have "iterate (JArr [] :: 'a jsval) = Inr []"
    by (simp add: iterate_def)
  moreover have "enhanceReferencesWithAvailability ops idx (JArr []) sourceFilename = Inr []"
    by (rule enhance_empty)
  moreover have "summary_total_references (saveResults idx [] sourceFilename) = 0"
    by (simp add: saveResults_def)
  moreover have "all_references (saveResults idx [] sourceFilename) = []"
    by (simp add: saveResults_def)
  ultimately show ?thesis by blast
qed

theorem decode_failure_zero_candidates_witness:
  "JSON_parse_excerpt (clean_response ''```json\<newline>{ references: none \<newline>```'') = None
   \<and> (\<exists>references.
         analyzeWithEnhancedAI integer_ops JSON_parse_excerpt ''--- PAGE 1 ---''
           (Inr ''```json\<newline>{ references: none \<newline>```'') = Inr references
       \<and> enhanceReferencesWithAvailability integer_ops scenario_index references ''doc.pdf''
           = Inr [])"
proof -
  have undecodable:
    "JSON_parse_excerpt (clean_response ''```json\<newline>{ references: none \<newline>```'') = None"
    by code_simp
  from decode_failure_zero_candidates
      [where JSON_parse = JSON_parse_excerpt
         and payload = "''```json\<newline>{ references: none \<newline>```''", OF undecodable]
    undecodable
  show ?thesis by blast
qed

lemma decode_failure_completes:
  assumes "JSON_parse (clean_response payload) = None" and "idx \<noteq> []"
    and "formatResults [] = Inr ()"
  shows "main_action ops JSON_parse formatResults idx sourceFilename fullText (Inr payload)
     = Completed (saveResults idx [] sourceFilename)"
proof -
  have "analyzeWithEnhancedAI ops JSON_parse fullText (Inr payload) = Inr (JArr [])"
    using assms(1) by (rule analyze_undecodable)
  moreover have "length (remdups (map fst idx)) \<noteq> 0"
    using assms(2) by simp
  ultimately show ?thesis
    using assms(3) by (simp add: main_action_def enhance_empty)
qed

text \<open>
  C4. Every failure to decode the payload into a sequence of records must yield zero
  candidates and must not abort the analysis. A payload that is valid JSON but no
  sequence, here the object \<open>{"references": []}\<close> inside the code fence, is returned
  by the call as it is; the loop of the resolution raises a TypeError on it, and the
  action of \<open>main\<close> exits with status 1, whatever the printing does.
\<close>

theorem non_sequence_payload_aborts:
  "JSON_parse_excerpt (clean_response ''```json\<newline>{\"references\": []}\<newline>```'')
     = Some (JObj [(''references'', JArr [])])
   \<and> analyzeWithEnhancedAI integer_ops JSON_parse_excerpt ''--- PAGE 1 ---''
        (Inr ''```json\<newline>{\"references\": []}\<newline>```'')
     = Inr (JObj [(''references'', JArr [])])
   \<and> enhanceReferencesWithAvailability integer_ops scenario_index
        (JObj [(''references'', JArr [])]) ''doc.pdf'' = Inl TypeError
   \<and> main_action integer_ops JSON_parse_excerpt formatResults scenario_index ''doc.pdf''
        ''--- PAGE 1 ---'' (Inr ''```json\<newline>{\"references\": []}\<newline>```'')
     = Exit_1"
proof -
  have parsed:
    "JSON_parse_excerpt (clean_response ''```json\<newline>{\"references\": []}\<newline>```'')
     = Some (JObj [(''references'', JArr [])])"
    by code_simp
  have returned: "analyzeWithEnhancedAI integer_ops JSON_parse_excerpt ''--- PAGE 1 ---''
        (Inr ''```json\<newline>{\"references\": []}\<newline>```'')
     = Inr (JObj [(''references'', JArr [])])"
    by code_simp
  have raised: "enhanceReferencesWithAvailability integer_ops scenario_index
        (JObj [(''references'', JArr [])]) ''doc.pdf'' = Inl TypeError"
    by (rule non_iterable_payload_raises)
  have exits: "main_action integer_ops JSON_parse_excerpt formatResults scenario_index
        ''doc.pdf'' ''--- PAGE 1 ---''
        (Inr ''```json\<newline>{\"references\": []}\<newline>```'')
     = Exit_1"
  proof -
    have "length (remdups (map fst scenario_index)) \<noteq> 0"
      by (simp add: scenario_index_def)
    then show ?thesis
      by (simp add: main_action_def returned raised)
  qed
  from parsed returned raised exits show ?thesis by simp
qed

text \<open>
  The same for a payload that is a number; and a payload that is a JSON string is
  iterated character by character, each character becoming an external reference.
\<close>

lemma number_payload_aborts:
  "main_action integer_ops JSON_parse_excerpt formatResults scenario_index ''doc.pdf''
     ''--- PAGE 1 ---'' (Inr ''7'') = Exit_1"
proof -
  have returned: "analyzeWithEnhancedAI integer_ops JSON_parse_excerpt ''--- PAGE 1 ---''
      (Inr ''7'') = Inr (JNum 7)"
    by code_simp
  have "length (remdups (map fst scenario_index)) \<noteq> 0"
    by (simp add: scenario_index_def)
  then show ?thesis
    by (simp add: main_action_def returned non_iterable_payload_raises)
qed

lemma string_payload_characters:
  "analyzeWithEnhancedAI integer_ops JSON_parse_excerpt ''--- PAGE 1 ---'' (Inr ''\"no\"'')
     = Inr (JStr ''no'')
   \<and> enhanceReferencesWithAvailability integer_ops scenario_index (JStr ''no'') ''doc.pdf''
     = Inr [[(''0'', JStr ''n''),
             (''availability_status'', JStr ''external_reference''),
             (''note'', JStr ''Referenced document not in local collection'')],
            [(''0'', JStr ''o''),
             (''availability_status'', JStr ''external_reference''),
             (''note'', JStr ''Referenced document not in local collection'')]]"
proof -
  have a: "analyzeWithEnhancedAI integer_ops JSON_parse_excerpt ''--- PAGE 1 ---''
      (Inr ''\"no\"'') = Inr (JStr ''no'')"
    by code_simp
  have zero: "show_nat 0 = ''0''"
    by code_simp
  have b: "enhanceReferencesWithAvailability integer_ops scenario_index (JStr ''no'') ''doc.pdf''
     = Inr [[(''0'', JStr ''n''),
             (''availability_status'', JStr ''external_reference''),
             (''note'', JStr ''Referenced document not in local collection'')],
            [(''0'', JStr ''o''),
             (''availability_status'', JStr ''external_reference''),
             (''note'', JStr ''Referenced document not in local collection'')]]"
    by (simp add: enhanceReferencesWithAvailability_def iterate_def enhance_ref_def
        get_prop_def spread_def key_in_def scenario_index_def Object_prototype_names_def zero)
  from a b show ?thesis by simp
qed





section \<open>Properties of the matcher\<close>

lemma case_pair_arith:
  fixes n k :: nat
  defines "low x \<equiv> (97 \<le> x \<and> x \<le> 122) \<or> (224 \<le> x \<and> x \<le> 254 \<and> x \<noteq> 247)"
    and "up x \<equiv> (65 \<le> x \<and> x \<le> 90) \<or> (192 \<le> x \<and> x \<le> 222 \<and> x \<noteq> 215)"
  shows "(if low n then n - 32 else n) = (if low k then k - 32 else k) \<longleftrightarrow>
      n = k \<or> n = (if low k then k - 32 else k) \<or> n = (if up k then k + 32 else k)"
proof -
  have up_low: "low (x + 32)" if "up x" for x
    using that unfolding low_def up_def by linarith
  have low_up: "up (x - 32) \<and> 32 \<le> x" if "low x" for x
    using that unfolding low_def up_def by linarith
  have up_not_low: "\<not> low x" if "up x" for x
    using that unfolding low_def up_def by linarith
  show ?thesis
  proof (cases "low n")
    case ln: True
    show ?thesis
    proof (cases "low k")
      case lk: True
      from low_up [OF ln] low_up [OF lk] have "n - 32 = k - 32 \<longleftrightarrow> n = k" by linarith
      moreover from lk up_not_low have "\<not> up k" by blast
      moreover from ln low_up [OF lk] up_not_low have "n \<noteq> k - 32" by blast
      ultimately show ?thesis using ln lk by simp
    next
      case nk: False
      have "n - 32 = k \<longleftrightarrow> up k \<and> n = k + 32"
        using low_up [OF ln] by auto
      moreover from ln nk have "n \<noteq> k" by blast
      ultimately show ?thesis using ln nk by auto
    qed
  next
    case nn: False
    show ?thesis
    proof (cases "low k")
      case lk: True
      from nn lk have "n \<noteq> k" by blast
      moreover from lk up_not_low have "\<not> up k" by blast
      ultimately show ?thesis using nn lk by auto
    next
      case nk: False
      from nn up_low have "up k \<Longrightarrow> n \<noteq> k + 32" by blast
      then show ?thesis using nn nk by auto
    qed
  qed
qed

text \<open>
  Within the block, the code units with the canonical form of \<open>c\<close> are \<open>c\<close>, its
  upper case and its lower case.
\<close>

lemma same_canonical_form:
  "canonicalize m = canonicalize c \<longleftrightarrow> m = c \<or> m = canonicalize c \<or> m = lower_char c"
proof -
  have "code_unit (canonicalize m) = code_unit (canonicalize c) \<longleftrightarrow>
      code_unit m = code_unit c \<or> code_unit m = code_unit (canonicalize c)
      \<or> code_unit m = code_unit (lower_char c)"
    unfolding code_unit_canonicalize code_unit_lower_char
    by (rule case_pair_arith)
  then show ?thesis
    by (simp only: code_unit_eq_iff)
qed

text \<open>
  The class test is the test of the language definition: some member of the class has
  the canonical form of the code unit.
\<close>

lemma class_member_canonical:
  "atom_ok (Cls ranges) c \<longleftrightarrow>
     (\<exists>(lo, hi) \<in> set ranges. \<exists>m. in_range lo hi m \<and> canonicalize m = canonicalize c)"
proof -
  have "(\<exists>m. in_range lo hi m \<and> canonicalize m = canonicalize c) \<longleftrightarrow>
      in_range lo hi c \<or> in_range lo hi (canonicalize c) \<or> in_range lo hi (lower_char c)"
    for lo hi
    unfolding same_canonical_form by blast
  then show ?thesis
    by (simp add: list_ex_iff case_prod_unfold)
qed

lemma rep_suffixes_nth:
  "i < length (rep_suffixes a hi s) \<Longrightarrow>
     rep_suffixes a hi s ! i = drop i s \<and> i \<le> length s \<and> list_all (atom_ok a) (take i s)
     \<and> (case hi of None \<Rightarrow> True | Some n \<Rightarrow> i \<le> n)"
proof (induction s arbitrary: i hi)
  case Nil
  then show ?case by (simp split: option.splits)
next
  case (Cons c cs)
  show ?case
  proof (cases i)
    case 0
    then show ?thesis by (simp split: option.splits)
  next
    case (Suc j)
    with Cons.prems have ok: "hi \<noteq> Some 0" "atom_ok a c"
      and j: "j < length (rep_suffixes a (map_option (\<lambda>n. n - 1) hi) cs)"
      by (auto split: if_splits)
    from Cons.IH [OF j] Suc ok show ?thesis
      by (cases hi) auto
  qed
qed

lemma rep_suffixes_member:
  assumes "rest \<in> set (drop lo (rep_suffixes a hi s))"
  shows "\<exists>w. s = w @ rest \<and> accepts (Rep greedy a lo hi) w"
proof -
  from assms obtain j where j: "j < length (drop lo (rep_suffixes a hi s))"
    and nth: "drop lo (rep_suffixes a hi s) ! j = rest"
    by (auto simp: in_set_conv_nth)
  define i where "i = lo + j"
  from j nth have i: "lo \<le> i" "i < length (rep_suffixes a hi s)"
    and rest: "rest = rep_suffixes a hi s ! i"
    by (auto simp: i_def)
  from rep_suffixes_nth [OF i(2)] rest i(1)
  have "s = take i s @ rest" "accepts (Rep greedy a lo hi) (take i s)"
    by (auto split: option.splits)
  then show ?thesis by blast
qed

lemma rmatch_Seq_member:
  "(rest, cap') \<in> set (rmatch (Seq r1 r2) s cap) \<longleftrightarrow>
     (\<exists>s1 cap1. (s1, cap1) \<in> set (rmatch r1 s cap) \<and> (rest, cap') \<in> set (rmatch r2 s1 cap1))"
  by auto

lemma rmatch_accepts:
  "(rest, cap') \<in> set (rmatch r s cap) \<Longrightarrow> \<exists>w. s = w @ rest \<and> accepts r w"
proof (induction r arbitrary: s cap rest cap')
  case Empty
  then show ?case by simp
next
  case (Atom a)
  then show ?case by (auto split: list.splits if_splits)
next
  case (Rep greedy a lo hi)
  then have "rest \<in> set (drop lo (rep_suffixes a hi s))"
    by (auto split: if_splits)
  then show ?case by (rule rep_suffixes_member)
next
  case (Seq r1 r2)
  from Seq.prems obtain s1 cap1 where 1: "(s1, cap1) \<in> set (rmatch r1 s cap)"
    and 2: "(rest, cap') \<in> set (rmatch r2 s1 cap1)"
    unfolding rmatch_Seq_member by blast
  from Seq.IH(1) [OF 1] obtain u where u: "s = u @ s1" "accepts r1 u" by blast
  from Seq.IH(2) [OF 2] obtain v where v: "s1 = v @ rest" "accepts r2 v" by blast
  from u v have "s = (u @ v) @ rest \<and> accepts (Seq r1 r2) (u @ v)" by auto
  then show ?case by blast
next
  case (Alt r1 r2)
  then show ?case by (auto dest: Alt.IH)
next
  case (Group r)
  then show ?case by (auto dest: Group.IH)
next
  case EndAnchor
  then show ?case by (auto split: if_splits)
qed

lemma rmatch_group_free:
  "group_free r \<Longrightarrow> (rest, cap') \<in> set (rmatch r s cap) \<Longrightarrow> cap' = cap"
proof (induction r arbitrary: s cap rest cap')
  case (Seq r1 r2)
  from Seq.prems obtain s1 cap1 where 1: "(s1, cap1) \<in> set (rmatch r1 s cap)"
    and 2: "(rest, cap') \<in> set (rmatch r2 s1 cap1)"
    unfolding rmatch_Seq_member by blast
  from Seq.prems(1) Seq.IH(1) [OF _ 1] Seq.IH(2) [OF _ 2] show ?case by simp
next
  case (Alt r1 r2)
  then show ?case by auto
qed (auto split: list.splits if_splits)

lemma rmatch_Group_capture:
  assumes "(rest, cap') \<in> set (rmatch (Group r) s cap)"
  shows "\<exists>w. s = w @ rest \<and> accepts r w \<and> cap' = Some w"
proof -
  from assms obtain cap1 where in_r: "(rest, cap1) \<in> set (rmatch r s cap)"
    and cap': "cap' = Some (take (length s - length rest) s)"
    by auto
  from rmatch_accepts [OF in_r] obtain w where "s = w @ rest" "accepts r w" by blast
  with cap' show ?thesis by auto
qed

text \<open>A match found by the search: where it starts and what it consists of.\<close>

lemma search_Some:
  "search r i input = Some m \<Longrightarrow>
     \<exists>pre s rest others. input = pre @ s \<and> index m = i + length pre
       \<and> rmatch r s None = (rest, group1 m) # others
       \<and> s = whole m @ rest \<and> accepts r (whole m)"
proof (induction input arbitrary: i)
  case Nil
  then obtain rest cap others where first: "rmatch r [] None = (rest, cap) # others"
    and m: "m = \<lparr>whole = [], group1 = cap, index = i\<rparr>"
    by (auto split: list.splits)
  from first have "(rest, cap) \<in> set (rmatch r [] None)" by simp
  from rmatch_accepts [OF this] have "rest = []" "accepts r []" by auto
  with first m show ?case by auto
next
  case (Cons c cs)
  show ?case
  proof (cases "rmatch r (c # cs) None")
    case Nil
    with Cons.prems have "search r (Suc i) cs = Some m" by simp
    from Cons.IH [OF this] obtain pre s rest others where
      "cs = pre @ s" "index m = Suc i + length pre" "rmatch r s None = (rest, group1 m) # others"
      "s = whole m @ rest" "accepts r (whole m)"
      by blast
    then have "c # cs = (c # pre) @ s \<and> index m = i + length (c # pre)
        \<and> rmatch r s None = (rest, group1 m) # others \<and> s = whole m @ rest \<and> accepts r (whole m)"
      by simp
    then show ?thesis by blast
  next
    case (Cons first others)
    obtain rest cap where first: "first = (rest, cap)" by (cases first)
    with Cons Cons.prems
    have m: "m = \<lparr>whole = take (length (c # cs) - length rest) (c # cs), group1 = cap, index = i\<rparr>"
      by simp
    from Cons first have "(rest, cap) \<in> set (rmatch r (c # cs) None)" by simp
    from rmatch_accepts [OF this] obtain w where w: "c # cs = w @ rest" "accepts r w" by blast
    then have "take (length (c # cs) - length rest) (c # cs) = w"
      by (metis append_eq_conv_conj length_append add_diff_cancel_right')
    with m w Cons first
    have "c # cs = [] @ (c # cs) \<and> index m = i + length ([] :: string)
        \<and> rmatch r (c # cs) None = (rest, group1 m) # others
        \<and> c # cs = whole m @ rest \<and> accepts r (whole m)"
      by simp
    then show ?thesis by blast
  qed
qed

lemma canonicalize_slash: "canonicalize c = CHR ''/'' \<longleftrightarrow> c = CHR ''/''"
proof
  assume eq: "canonicalize c = CHR ''/''"
  show "c = CHR ''/''"
  proof (rule ccontr)
    assume ne: "c \<noteq> CHR ''/''"
    with eq have range: "(97 \<le> code_unit c \<and> code_unit c \<le> 122)
        \<or> (224 \<le> code_unit c \<and> code_unit c \<le> 254 \<and> code_unit c \<noteq> 247)"
      and "char_of (code_unit c - 32) = CHR ''/''"
      by (auto simp: canonicalize_def Let_def split: if_splits)
    then have "take_bit 8 (code_unit c - 32) = (of_char (CHR ''/'') :: nat)"
      by (simp add: char_of_eq_iff)
    moreover have "code_unit c < 256"
      by (simp add: code_unit_def)
    then have "take_bit 8 (code_unit c - 32) = code_unit c - 32"
      by (simp add: take_bit_nat_eq_self)
    ultimately show False using range by auto
  qed
next
  assume "c = CHR ''/''"
  then show "canonicalize c = CHR ''/''"
    by (simp add: canonicalize_def code_unit_def)
qed

lemma accepts_lits:
  "accepts (lits p) w \<Longrightarrow> map canonicalize w = map canonicalize p"
proof (induction p arbitrary: w)
  case Nil
  then show ?case by (simp add: lits_def)
next
  case (Cons c cs)
  from Cons.prems obtain x v where "w = x # v" "atom_ok (Lit c) x" "accepts (lits cs) v"
    by (auto simp: lits_def)
  with Cons.IH show ?case by simp
qed

lemma accepts_slash_free:
  "\<forall>a \<in> set (atoms r). \<not> atom_ok a CHR ''/'' \<Longrightarrow> accepts r w \<Longrightarrow> CHR ''/'' \<notin> set w"
proof (induction r arbitrary: w)
  case (Rep greedy a lo hi)
  then show ?case by (auto simp: list_all_iff)
next
  case (Seq r1 r2)
  then show ?case by fastforce
next
  case (Alt r1 r2)
  then show ?case by fastforce
qed auto

lemma includes_slash: "includes_str w ''/'' \<longleftrightarrow> CHR ''/'' \<in> set w"
  by (induction w) auto

lemma canonical_has_slash:
  assumes "accepts canonical_pattern w"
  shows "CHR ''/'' \<in> set w"
proof -
  from assms obtain u v where w: "w = u @ v" and u: "accepts (lits ''SEBI/'') u"
    by (auto simp: canonical_pattern_def seqs_def)
  from accepts_lits [OF u] have "map canonicalize u = map canonicalize ''SEBI/''" .
  then obtain a b c d e where "u = [a, b, c, d, e]" "canonicalize e = canonicalize CHR ''/''"
    by (auto simp: map_eq_Cons_conv)
  moreover have "canonicalize CHR ''/'' = CHR ''/''"
    by (simp add: canonicalize_slash)
  ultimately have "e = CHR ''/''" "e \<in> set u"
    by (simp_all add: canonicalize_slash)
  with w show ?thesis by simp
qed

lemma str_match_Some:
  assumes "str_match doc r = Some m"
  shows "\<exists>pre s rest others. doc = pre @ s \<and> index m = length pre
       \<and> rmatch r s None = (rest, group1 m) # others
       \<and> s = whole m @ rest \<and> accepts r (whole m)"
  using search_Some [of r 0 doc m] assms by (simp add: str_match_def)

lemma generic_label_slash_free: "\<forall>a \<in> set (atoms generic_label). \<not> atom_ok a CHR ''/''"
  by code_simp

lemma generic_match_shape:
  assumes "str_match doc generic_pattern = Some m"
  shows "\<exists>label v. whole m = label @ v \<and> group1 m = Some v
     \<and> accepts generic_label label \<and> v \<noteq> []"
proof -
  from str_match_Some [OF assms] obtain s rest others where
    first: "rmatch generic_pattern s None = (rest, group1 m) # others"
    and s: "s = whole m @ rest"
    by blast
  from first have "(rest, group1 m) \<in> set (rmatch generic_pattern s None)" by simp
  then obtain s1 cap1 where 1: "(s1, cap1) \<in> set (rmatch generic_label s None)"
    and 2: "(rest, group1 m) \<in> set (rmatch (Group (Rep True (Cls value_class) 1 None)) s1 cap1)"
    unfolding generic_pattern_def rmatch_Seq_member by blast
  from rmatch_accepts [OF 1] obtain label where label: "s = label @ s1" "accepts generic_label label"
    by blast
  from rmatch_Group_capture [OF 2] obtain v where v: "s1 = v @ rest"
    "accepts (Rep True (Cls value_class) 1 None) v" "group1 m = Some v"
    by blast
  from s label v have "whole m = label @ v" by simp
  moreover from v have "v \<noteq> []" by auto
  ultimately show ?thesis using label v by blast
qed

lemma generic_label_word:
  assumes "accepts generic_label label"
  shows "map canonicalize (take 8 label) = ''CIRCULAR''"
proof -
  from assms obtain u v where l: "label = u @ v" and u: "accepts (lits ''Circular'') u"
    by (auto simp: generic_label_def seqs_def)
  from accepts_lits [OF u] have c: "map canonicalize u = map canonicalize ''Circular''" .
  then have "length (map canonicalize u) = length (map canonicalize ''Circular'')"
    by simp
  then have "length u = 8"
    by simp
  with l have "take 8 label = u" by simp
  moreover have "map canonicalize ''Circular'' = ''CIRCULAR''"
    by code_simp
  ultimately show ?thesis using c by simp
qed

section \<open>Properties of circular-number extraction\<close>

text \<open>
  C8. Circular-number precedence: whenever the canonical pattern matches the text, the
  extraction returns the text matched by the canonical pattern, whatever the generic
  pattern matches and wherever in the text it does.
\<close>

theorem canonical_pattern_precedence:
  assumes "str_match doc canonical_pattern = Some m"
  shows "extractCircularNumber doc = JStr (whole m)"
proof -
  from str_match_Some [OF assms] have "accepts canonical_pattern (whole m)"
    by blast
  then have "includes_str (whole m) ''/''"
    by (simp add: includes_slash canonical_has_slash)
  with assms show ?thesis
    by (simp add: extractCircularNumber_def)
qed

theorem canonical_pattern_precedence_witness:
  "str_match ''Circular No. 7 SEBI/A/P/B/2021/5'' generic_pattern
     = Some \<lparr>whole = ''Circular No. 7'', group1 = Some ''7'', index = 0\<rparr>
   \<and> str_match ''Circular No. 7 SEBI/A/P/B/2021/5'' canonical_pattern
     = Some \<lparr>whole = ''SEBI/A/P/B/2021/5'', group1 = None, index = 15\<rparr>
   \<and> (extractCircularNumber ''Circular No. 7 SEBI/A/P/B/2021/5'' :: int jsval)
     = JStr ''SEBI/A/P/B/2021/5''"
proof -
  have generic: "str_match ''Circular No. 7 SEBI/A/P/B/2021/5'' generic_pattern
     = Some \<lparr>whole = ''Circular No. 7'', group1 = Some ''7'', index = 0\<rparr>"
    by code_simp
  have canonical: "str_match ''Circular No. 7 SEBI/A/P/B/2021/5'' canonical_pattern
     = Some \<lparr>whole = ''SEBI/A/P/B/2021/5'', group1 = None, index = 15\<rparr>"
    by code_simp
  from canonical_pattern_precedence [OF canonical] generic canonical show ?thesis
    by simp
qed

text \<open>
  C10. When the canonical pattern does not match and the generic pattern does, the match
  is a label part, which begins with the word Circular in some letter case and holds no
  slash, followed by the captured value; the extraction returns the captured value alone
  when it holds no slash, and the whole match, label included, when it holds one.
\<close>

theorem generic_pattern_result:
  assumes "str_match doc canonical_pattern = None"
    and "str_match doc generic_pattern = Some m"
  shows "\<exists>label v. whole m = label @ v \<and> group1 m = Some v
     \<and> map canonicalize (take 8 label) = ''CIRCULAR'' \<and> CHR ''/'' \<notin> set label
     \<and> extractCircularNumber doc = (if CHR ''/'' \<in> set v then JStr (label @ v) else JStr v)"
proof -
  from generic_match_shape [OF assms(2)] obtain label v where
    shape: "whole m = label @ v" "group1 m = Some v" and label: "accepts generic_label label"
    by blast
  have word: "map canonicalize (take 8 label) = ''CIRCULAR''"
    using label by (rule generic_label_word)
  have free: "CHR ''/'' \<notin> set label"
    using generic_label_slash_free label by (rule accepts_slash_free)
  have result: "extractCircularNumber doc
      = (if CHR ''/'' \<in> set v then JStr (label @ v) else JStr v)"
    using assms shape free by (simp add: extractCircularNumber_def includes_slash)
  show ?thesis
  proof (intro exI conjI)
    show "whole m = label @ v" by (rule shape(1))
    show "group1 m = Some v" by (rule shape(2))
    show "map canonicalize (take 8 label) = ''CIRCULAR''" by (rule word)
    show "CHR ''/'' \<notin> set label" by (rule free)
    show "extractCircularNumber doc
      = (if CHR ''/'' \<in> set v then JStr (label @ v) else JStr v)" by (rule result)
  qed
qed

theorem generic_pattern_result_witness:
  "str_match ''Circular No. AB/12'' canonical_pattern = None
   \<and> str_match ''Circular No. AB/12'' generic_pattern
       = Some \<lparr>whole = ''Circular No. AB/12'', group1 = Some ''AB/12'', index = 0\<rparr>
   \<and> (extractCircularNumber ''Circular No. AB/12'' :: int jsval) = JStr ''Circular No. AB/12''
   \<and> str_match ''circular no 45-B'' canonical_pattern = None
   \<and> str_match ''circular no 45-B'' generic_pattern
       = Some \<lparr>whole = ''circular no 45-B'', group1 = Some ''45-B'', index = 0\<rparr>
   \<and> (extractCircularNumber ''circular no 45-B'' :: int jsval) = JStr ''45-B''"
proof -
  have c1: "str_match ''Circular No. AB/12'' canonical_pattern = None"
    by code_simp
  have g1: "str_match ''Circular No. AB/12'' generic_pattern
       = Some \<lparr>whole = ''Circular No. AB/12'', group1 = Some ''AB/12'', index = 0\<rparr>"
    by code_simp
  have c2: "str_match ''circular no 45-B'' canonical_pattern = None"
    by code_simp
  have g2: "str_match ''circular no 45-B'' generic_pattern
       = Some \<lparr>whole = ''circular no 45-B'', group1 = Some ''45-B'', index = 0\<rparr>"
    by code_simp
  from generic_pattern_result [OF c1 g1, where 'a = int] obtain label v where
    w: "whole \<lparr>whole = ''Circular No. AB/12'', group1 = Some ''AB/12'', index = 0\<rparr> = label @ v"
    and g: "group1 \<lparr>whole = ''Circular No. AB/12'', group1 = Some ''AB/12'', index = 0\<rparr> = Some v"
    and r: "(extractCircularNumber ''Circular No. AB/12'' :: int jsval)
       = (if CHR ''/'' \<in> set v then JStr (label @ v) else JStr v)"
    by blast
  from g have v: "v = ''AB/12''" by simp
  from w have l: "label @ ''AB/12'' = ''Circular No. AB/12''" by (simp add: v)
  from r have r1: "(extractCircularNumber ''Circular No. AB/12'' :: int jsval)
      = JStr ''Circular No. AB/12''"
    by (simp add: v l)
  from generic_pattern_result [OF c2 g2, where 'a = int] obtain label' v' where
    g': "group1 \<lparr>whole = ''circular no 45-B'', group1 = Some ''45-B'', index = 0\<rparr> = Some v'"
    and r': "(extractCircularNumber ''circular no 45-B'' :: int jsval)
       = (if CHR ''/'' \<in> set v' then JStr (label' @ v') else JStr v')"
    by blast
  from g' have v': "v' = ''45-B''" by simp
  from r' have r2: "(extractCircularNumber ''circular no 45-B'' :: int jsval) = JStr ''45-B''"
    by (simp add: v')
  from c1 g1 r1 c2 g2 r2 show ?thesis by simp
qed

section \<open>Properties of subject extraction\<close>

lemma labelled_line_captures:
  assumes "str_match doc (labelled_line label) = Some m"
  shows "\<exists>g. group1 m = Some g"
proof -
  from str_match_Some [OF assms] obtain s rest others where
    "rmatch (labelled_line label) s None = (rest, group1 m) # others"
    by blast
  then have "(rest, group1 m) \<in> set (rmatch (labelled_line label) s None)"
    by simp
  then obtain s2 cap2 s3 cap3 s4 cap4 where
    "(s3, cap3) \<in> set (rmatch (Group (Rep False Dot 1 None)) s2 cap2)"
    and alt: "(s4, cap4) \<in> set (rmatch (Alt (Atom (Lit CHR 0x0A)) EndAnchor) s3 cap3)"
    and last: "(rest, group1 m) \<in> set (rmatch Empty s4 cap4)"
    unfolding labelled_line_def seqs_def foldr.simps o_apply id_apply rmatch_Seq_member
    by blast
  then obtain w where "cap3 = Some w"
    using rmatch_Group_capture by blast
  moreover have "cap4 = cap3"
    using rmatch_group_free [OF _ alt] by simp
  moreover have "group1 m = cap4"
    using last by simp
  ultimately show ?thesis by simp
qed

lemma labelled_subject_None:
  "labelled_subject (labelled_line label) doc = None \<longleftrightarrow> str_match doc (labelled_line label) = None"
  using labelled_line_captures [of doc label]
  by (auto simp: labelled_subject_def split: option.splits)

lemma extractSubject_cases:
  "extractSubject doc =
     Inr (case labelled_subject subject_pattern doc of
            Some s \<Rightarrow> if length s > 10 then Some s
                      else (case labelled_subject re_pattern doc of
                              Some s' \<Rightarrow> if length s' > 10 then Some s' else None
                            | None \<Rightarrow> None)
          | None \<Rightarrow> (case labelled_subject re_pattern doc of
                       Some s' \<Rightarrow> if length s' > 10 then Some s' else None
                     | None \<Rightarrow> None))"
proof -
  have s: "\<exists>g. group1 m = Some g" if "str_match doc subject_pattern = Some m" for m
    using that labelled_line_captures unfolding subject_pattern_def by blast
  have r: "\<exists>g. group1 m = Some g" if "str_match doc re_pattern = Some m" for m
    using that labelled_line_captures unfolding re_pattern_def by blast
  show ?thesis
    using s r
    by (fastforce simp: extractSubject_def labelled_subject_def Let_def split: option.splits)
qed

text \<open>
  C7 (as amended). Subject boundary. When the line labelled \<open>Subject:\<close> normalises to
  exactly 11 characters, the extraction yields it. When it normalises to exactly 10, that
  match is rejected and the \<open>Re:\<close> pattern decides: the extraction yields absent if
  the \<open>Re:\<close> pattern does not match or its line normalises to at most 10 characters,
  and the line labelled \<open>Re:\<close> if that normalises to 11.
  In a text without a \<open>Subject:\<close> match the line labelled \<open>Re:\<close> has the same
  boundary: 11 characters are returned, 10 yield absent.
\<close>

theorem subject_boundary:
  "(labelled_subject subject_pattern doc = Some s \<and> length s = 11
      \<longrightarrow> extractSubject doc = Inr (Some s))
   \<and> (labelled_subject subject_pattern doc = Some s \<and> length s = 10
      \<and> (str_match doc re_pattern = None
          \<or> (\<exists>s'. labelled_subject re_pattern doc = Some s' \<and> length s' \<le> 10))
      \<longrightarrow> extractSubject doc = Inr None)
   \<and> (labelled_subject subject_pattern doc = Some s \<and> length s \<le> 10
      \<and> labelled_subject re_pattern doc = Some s' \<and> length s' = 11
      \<longrightarrow> extractSubject doc = Inr (Some s'))
   \<and> (str_match doc subject_pattern = None \<and> labelled_subject re_pattern doc = Some s
      \<and> length s = 11 \<longrightarrow> extractSubject doc = Inr (Some s))
   \<and> (str_match doc subject_pattern = None \<and> labelled_subject re_pattern doc = Some s
      \<and> length s = 10 \<longrightarrow> extractSubject doc = Inr None)"
proof -
  have no_re: "labelled_subject re_pattern doc = None" if "str_match doc re_pattern = None"
    using that by (simp add: labelled_subject_def)
  have no_subject: "labelled_subject subject_pattern doc = None"
    if "str_match doc subject_pattern = None"
    using that by (simp add: labelled_subject_def)
  show ?thesis
    using no_re no_subject by (auto simp: extractSubject_cases)
qed

theorem subject_boundary_witness:
  "labelled_subject subject_pattern ''Subject:  Margin   rule '' = Some ''Margin rule''
   \<and> extractSubject ''Subject:  Margin   rule '' = Inr (Some ''Margin rule'')
   \<and> labelled_subject subject_pattern ''Subject: 0123456789'' = Some ''0123456789''
   \<and> str_match ''Subject: 0123456789'' re_pattern = None
   \<and> extractSubject ''Subject: 0123456789'' = Inr None"
proof -
  have a: "labelled_subject subject_pattern ''Subject:  Margin   rule '' = Some ''Margin rule''"
    by code_simp
  have b: "labelled_subject subject_pattern ''Subject: 0123456789'' = Some ''0123456789''"
    by code_simp
  have c: "str_match ''Subject: 0123456789'' re_pattern = None"
    by code_simp
  from subject_boundary [of "''Subject:  Margin   rule ''" "''Margin rule''"] a
  have 1: "extractSubject ''Subject:  Margin   rule '' = Inr (Some ''Margin rule'')"
    by simp
  from subject_boundary [of "''Subject: 0123456789''" "''0123456789''"] b c
  have 2: "extractSubject ''Subject: 0123456789'' = Inr None"
    by simp
  from a b c 1 2 show ?thesis by simp
qed

text \<open>
  C7 as stated fails: the line labelled \<open>Subject:\<close> normalises to exactly 10
  characters, and the extraction yields the line labelled \<open>Re:\<close> instead of absent.
\<close>

theorem short_subject_falls_through:
  "labelled_subject subject_pattern ''Subject: 0123456789\<newline>Re: abcdefghijk''
     = Some ''0123456789''
   \<and> length ''0123456789'' = 10
   \<and> extractSubject ''Subject: 0123456789\<newline>Re: abcdefghijk'' = Inr (Some ''abcdefghijk'')"
  by code_simp

end
